theory Spec2Isabelle
  imports Complex_Main
begin

section \<open>JavaScript values used by the chat client\<close>

text \<open>
  A JavaScript string is modelled as a \<^typ>\<open>string\<close>: a list of code units below 256.
  Values of type \<open>any\<close> (message metadata, the result of \<open>JSON.parse\<close>) are JSON values.
\<close>

datatype json =
    JNull
  | JBool bool
  | JNum real
  | JStr string
  | JArr "json list"
  | JObj "(string \<times> json) list"

text \<open>JavaScript truthiness, as \<open>||\<close> tests it.\<close>

fun truthy :: "json \<Rightarrow> bool" where
  "truthy JNull = False"
| "truthy (JBool b) = b"
| "truthy (JNum r) = (r \<noteq> 0)"
| "truthy (JStr s) = (s \<noteq> [])"
| "truthy (JArr _) = True"
| "truthy (JObj _) = True"

text \<open>
  The white space and line terminators that \<open>String.prototype.trim\<close> strips, among the
  code units below 256: TAB, LF, VT, FF, CR, SPACE and NBSP.
\<close>

definition is_space :: "char \<Rightarrow> bool" where
  "is_space c = (of_char c \<in> {9, 10, 11, 12, 13, 32, 160 :: nat})"

definition trim :: "string \<Rightarrow> string" where
  "trim s = rev (dropWhile is_space (rev (dropWhile is_space s)))"

section \<open>The chat page: \<open>frontend/src/pages/ChatInterface.tsx\<close>\<close>

datatype role = User | Assistant

record ChatMessage =
  msg_id :: string
  role :: role
  content :: string
  timestamp :: string
  agent_id :: "string option"
  agent_name :: "string option"
  metadata :: "json option"

record Conversation =
  conversation_id :: string
  conv_messages :: "ChatMessage list"
  total_messages :: nat
  created_at :: string
  updated_at :: string

record Agent =
  a_id :: string
  a_name :: string
  a_description :: string
  is_active :: bool

text \<open>\<open>WebSocket.readyState\<close>.\<close>

datatype ready_state = CONNECTING | OPEN | CLOSING | CLOSED

text \<open>
  The component state: the six \<open>useState\<close> cells of \<open>ChatInterface\<close>. \<open>ws\<close> is
  \<open>None\<close> for \<open>null\<close>, and otherwise carries the socket's current \<open>readyState\<close>.
\<close>

record chat_state =
  currentMessage :: string
  selectedAgent :: "string option"
  currentConversationId :: "string option"
  messages :: "ChatMessage list"
  isTyping :: bool
  ws :: "ready_state option"

text \<open>The request body built by \<open>handleSendMessage\<close>, the same object on both paths.\<close>

record chat_request =
  req_message :: string
  req_conversation_id :: "string option"
  req_preferred_agent_id :: "string option"

text \<open>
  What a handler does besides updating the state: a frame written to the socket
  (\<open>ws.send\<close> of \<open>{type, data}\<close>), an HTTP POST through \<open>api.post\<close>, an error toast
  (\<open>message.error\<close>, carrying \<open>error.message\<close>), a query invalidation.
\<close>

datatype effect =
    WsSend string chat_request
  | HttpPost string chat_request
  | ToastSendFailed string
  | InvalidateQueries string

text \<open>
  \<open>handleSendMessage\<close>. The two clock readings \<open>Date.now().toString()\<close> and
  \<open>new Date().toISOString()\<close> are parameters.
\<close>

definition userMessage :: "string \<Rightarrow> string \<Rightarrow> chat_state \<Rightarrow> ChatMessage" where
  "userMessage nowMs nowIso s =
     \<lparr> msg_id = nowMs, role = User, content = trim (currentMessage s),
       timestamp = nowIso, agent_id = None, agent_name = None, metadata = None \<rparr>"

definition chatRequest :: "chat_state \<Rightarrow> chat_request" where
  "chatRequest s =
     \<lparr> req_message = trim (currentMessage s),
       req_conversation_id = currentConversationId s,
       req_preferred_agent_id = selectedAgent s \<rparr>"

definition handleSendMessage ::
  "string \<Rightarrow> string \<Rightarrow> chat_state \<Rightarrow> chat_state \<times> effect list" where
  "handleSendMessage nowMs nowIso s =
     (if trim (currentMessage s) = [] then (s, [])
      else
        (s \<lparr> messages := messages s @ [userMessage nowMs nowIso s],
             isTyping := True,
             currentMessage := [] \<rparr>,
         if ws s = Some OPEN
         then [WsSend ''chat'' (chatRequest s)]
         else [HttpPost ''/chat/message'' (chatRequest s)]))"

text \<open>The send button: \<open>disabled={!currentMessage.trim() || isTyping}\<close>.\<close>

definition send_disabled :: "chat_state \<Rightarrow> bool" where
  "send_disabled s = (trim (currentMessage s) = [] \<or> isTyping s)"

text \<open>
  The body of a successful \<open>POST /chat/message\<close>, as \<open>onSuccess\<close> reads it.
\<close>

record chat_response =
  resp_id :: string
  resp_message :: string
  resp_timestamp :: string
  resp_agent_id :: "string option"
  resp_agent_name :: "string option"
  resp_metadata :: "json option"
  resp_conversation_id :: "string option"

definition newMessage :: "chat_response \<Rightarrow> ChatMessage" where
  "newMessage r =
     \<lparr> msg_id = resp_id r, role = Assistant, content = resp_message r,
       timestamp = resp_timestamp r, agent_id = resp_agent_id r,
       agent_name = resp_agent_name r, metadata = resp_metadata r \<rparr>"

text \<open>\<open>sendMessageMutation.onSuccess\<close> and \<open>sendMessageMutation.onError\<close>.\<close>

definition onSuccess :: "chat_response \<Rightarrow> chat_state \<Rightarrow> chat_state \<times> effect list" where
  "onSuccess r s =
     (s \<lparr> messages := messages s @ [newMessage r],
          currentConversationId := resp_conversation_id r,
          isTyping := False \<rparr>,
      [InvalidateQueries ''conversations''])"

definition onError :: "string \<Rightarrow> chat_state \<Rightarrow> chat_state \<times> effect list" where
  "onError err s = (s \<lparr> isTyping := False \<rparr>, [ToastSendFailed err])"

text \<open>
  A frame received on the socket, after \<open>JSON.parse(event.data)\<close>: \<open>type\<close>,
  \<open>data\<close> and \<open>timestamp\<close>. A frame of type \<open>message\<close> carries the fields
  \<open>websocket.onmessage\<close> reads from \<open>data.data\<close>; a frame of type \<open>status\<close> carries
  \<open>data.data.status\<close>; every other type (\<open>connection\<close>, \<open>error\<close>, \<open>pong\<close>, ...) is
  kept by its name only.
\<close>

record ws_message_data =
  ws_message_id :: "string option"
  ws_message :: string
  ws_agent_id :: "string option"
  ws_agent_name :: "string option"
  ws_metadata :: "json option"

datatype ws_event =
    WsMessageEvent ws_message_data string
  | WsStatusEvent string
  | WsOtherEvent string

text \<open>\<open>data.data.message_id || Date.now().toString()\<close>: an absent or empty id is falsy.\<close>

definition wsMessage :: "string \<Rightarrow> ws_message_data \<Rightarrow> string \<Rightarrow> ChatMessage" where
  "wsMessage nowMs d ts =
     \<lparr> msg_id = (case ws_message_id d of
                    None \<Rightarrow> nowMs
                  | Some i \<Rightarrow> if i = [] then nowMs else i),
       role = Assistant, content = ws_message d, timestamp = ts,
       agent_id = ws_agent_id d, agent_name = ws_agent_name d,
       metadata = ws_metadata d \<rparr>"

fun onmessage :: "string \<Rightarrow> ws_event \<Rightarrow> chat_state \<Rightarrow> chat_state" where
  "onmessage nowMs (WsMessageEvent d ts) s =
     s \<lparr> messages := messages s @ [wsMessage nowMs d ts], isTyping := False \<rparr>"
| "onmessage nowMs (WsStatusEvent st) s =
     (if st = ''processing'' then s \<lparr> isTyping := True \<rparr> else s)"
| "onmessage nowMs (WsOtherEvent ty) s = s"

text \<open>\<open>websocket.onopen\<close> and \<open>websocket.onclose\<close>.\<close>

definition onopen :: "chat_state \<Rightarrow> chat_state" where
  "onopen s = s \<lparr> ws := Some OPEN \<rparr>"

definition onclose :: "chat_state \<Rightarrow> chat_state" where
  "onclose s = s \<lparr> ws := None \<rparr>"

text \<open>\<open>loadConversation\<close> and \<open>clearCurrentChat\<close> switch to another conversation.\<close>

definition loadConversation :: "Conversation \<Rightarrow> chat_state \<Rightarrow> chat_state" where
  "loadConversation c s =
     s \<lparr> messages := conv_messages c, currentConversationId := Some (conversation_id c) \<rparr>"

definition clearCurrentChat :: "chat_state \<Rightarrow> chat_state" where
  "clearCurrentChat s = s \<lparr> messages := [], currentConversationId := None \<rparr>"

text \<open>
  The agent selector renders one option per agent, \<open>value={agent.id}\<close> and
  \<open>disabled={!agent.is_active}\<close>. A disabled option cannot be picked, so \<open>onChange\<close>
  (\<open>setSelectedAgent\<close>) receives the value of an enabled option, or \<open>undefined\<close> when
  the selection is cleared (\<open>allowClear\<close>).
\<close>

definition agent_options :: "Agent list \<Rightarrow> (string \<times> bool) list" where
  "agent_options agents = map (\<lambda>a. (a_id a, \<not> is_active a)) agents"

definition selectable :: "(string \<times> bool) list \<Rightarrow> string list" where
  "selectable opts = map fst (filter (\<lambda>(v, disabled). \<not> disabled) opts)"

definition onChangeAgent :: "Agent list \<Rightarrow> string option \<Rightarrow> chat_state \<Rightarrow> chat_state" where
  "onChangeAgent agents v s =
     (case v of
        None \<Rightarrow> s \<lparr> selectedAgent := None \<rparr>
      | Some x \<Rightarrow>
          if x \<in> set (selectable (agent_options agents))
          then s \<lparr> selectedAgent := Some x \<rparr> else s)"

text \<open>
  The events of one chat session that touch the message list or the input, and the
  handler each one runs. \<open>appended\<close> is the list of messages the event's handler
  passes to \<open>setMessages(prev => [...prev, m])\<close>.
\<close>

datatype chat_event =
    InputChanged string
  | SendClicked string string
  | HttpSucceeded chat_response
  | HttpFailed string
  | WsReceived string ws_event

fun chat_step :: "chat_event \<Rightarrow> chat_state \<Rightarrow> chat_state" where
  "chat_step (InputChanged v) s = s \<lparr> currentMessage := v \<rparr>"
| "chat_step (SendClicked nowMs nowIso) s = fst (handleSendMessage nowMs nowIso s)"
| "chat_step (HttpSucceeded r) s = fst (onSuccess r s)"
| "chat_step (HttpFailed err) s = fst (onError err s)"
| "chat_step (WsReceived nowMs ev) s = onmessage nowMs ev s"

fun appended :: "chat_event \<Rightarrow> chat_state \<Rightarrow> ChatMessage list" where
  "appended (SendClicked nowMs nowIso) s =
     (if trim (currentMessage s) = [] then [] else [userMessage nowMs nowIso s])"
| "appended (HttpSucceeded r) s = [newMessage r]"
| "appended (WsReceived nowMs (WsMessageEvent d ts)) s = [wsMessage nowMs d ts]"
| "appended _ s = []"

fun chat_run :: "chat_event list \<Rightarrow> chat_state \<Rightarrow> chat_state" where
  "chat_run [] s = s"
| "chat_run (e # es) s = chat_run es (chat_step e s)"

fun append_log :: "chat_event list \<Rightarrow> chat_state \<Rightarrow> ChatMessage list" where
  "append_log [] s = []"
| "append_log (e # es) s = appended e s @ append_log es (chat_step e s)"

text \<open>The initial values of the \<open>useState\<close> cells.\<close>

definition initial_chat_state :: chat_state where
  "initial_chat_state =
     \<lparr> currentMessage = [], selectedAgent = None, currentConversationId = None,
       messages = [], isTyping = False, ws = None \<rparr>"

section \<open>The router behind the chat endpoints\<close>

text \<open>
  Modelled from the spec: the Capability Matcher / Router (section 4.2) runs on the server
  and is not among the sources. An agent of the registry has an id, a capability set,
  domain keywords, the active flag and its current in-flight count; the registry lists
  the agents in registration order. The scoring weights are left open by the spec, so
  the score of an agent for a request is a parameter.
\<close>

record registered_agent =
  ra_id :: string
  ra_capabilities :: "string list"
  ra_keywords :: "string list"
  ra_active :: bool
  ra_in_flight :: nat

datatype routing_error = NoEligibleAgent

text \<open>
  Modelled from the spec: the highest score wins; ties break by lowest current load, then
  by earliest registration (the candidate met first is kept).
\<close>

definition better ::
  "(registered_agent \<Rightarrow> int) \<Rightarrow> registered_agent \<Rightarrow> registered_agent \<Rightarrow> registered_agent" where
  "better score best a =
     (if score a > score best \<or> (score a = score best \<and> ra_in_flight a < ra_in_flight best)
      then a else best)"

definition route_by_score ::
  "(registered_agent \<Rightarrow> int) \<Rightarrow> registered_agent list \<Rightarrow> routing_error + registered_agent" where
  "route_by_score score registry =
     (case filter ra_active registry of
        [] \<Rightarrow> Inl NoEligibleAgent
      | a # as \<Rightarrow> Inr (foldl (better score) a as))"

text \<open>
  Modelled from the spec: if a preferred agent id is given and that agent is active, it is
  selected unconditionally; otherwise every active agent is scored.
\<close>

definition route ::
  "(string \<Rightarrow> string list \<Rightarrow> registered_agent \<Rightarrow> int) \<Rightarrow> registered_agent list \<Rightarrow>
     string \<Rightarrow> string option \<Rightarrow> string list \<Rightarrow> routing_error + registered_agent" where
  "route score registry msg preferred hints =
     (case preferred of
        None \<Rightarrow> route_by_score (score msg hints) registry
      | Some p \<Rightarrow>
          (case find (\<lambda>a. ra_id a = p \<and> ra_active a) registry of
             Some a \<Rightarrow> Inr a
           | None \<Rightarrow> route_by_score (score msg hints) registry))"

text \<open>The server routes the request it receives on either path.\<close>

definition route_request ::
  "(string \<Rightarrow> string list \<Rightarrow> registered_agent \<Rightarrow> int) \<Rightarrow> registered_agent list \<Rightarrow>
     chat_request \<Rightarrow> routing_error + registered_agent" where
  "route_request score registry req =
     route score registry (req_message req) (req_preferred_agent_id req) []"

text \<open>The request carried by an effect of \<open>handleSendMessage\<close>.\<close>

fun sent_request :: "effect \<Rightarrow> chat_request option" where
  "sent_request (WsSend ty req) = Some req"
| "sent_request (HttpPost url req) = Some req"
| "sent_request _ = None"

section \<open>The streaming request: \<open>ApiService.stream\<close> in \<open>frontend/src/services/api.ts\<close>\<close>

text \<open>
  A byte of the response body is a \<^typ>\<open>char\<close> (eight bits); a chunk, the
  \<open>Uint8Array\<close> that one \<open>reader.read()\<close> returns, is a list of bytes.

  \<open>TextDecoder.decode(value, {stream: true})\<close> is the platform's decoder: it consumes
  the chunk byte by byte and keeps its state (an unfinished multi-byte sequence) between
  calls. Its step function \<open>dec\<close>, from a state and a byte to the next state and the text
  emitted, is a parameter.
\<close>

type_synonym byte = char

fun decode :: "('d \<Rightarrow> byte \<Rightarrow> 'd \<times> string) \<Rightarrow> 'd \<Rightarrow> byte list \<Rightarrow> 'd \<times> string" where
  "decode dec d [] = (d, [])"
| "decode dec d (b # bs) =
     (let (d1, t1) = dec d b; (d2, t2) = decode dec d1 bs in (d2, t1 @ t2))"

text \<open>\<open>buffer.split('\n')\<close>: never empty; the last element is what follows the last newline.\<close>

fun split_nl :: "string \<Rightarrow> string list" where
  "split_nl [] = [[]]"
| "split_nl (c # cs) =
     (if c = CHR 0x0A then [] # split_nl cs
      else (case split_nl cs of [] \<Rightarrow> [[c]] | l # ls \<Rightarrow> (c # l) # ls))"

text \<open>\<open>lines.pop() || ''\<close>: the removed last element, or the empty string.\<close>

definition pop_or_empty :: "string list \<Rightarrow> string" where
  "pop_or_empty lines = (if lines = [] then [] else last lines)"

text \<open>
  The consumer callback \<open>onMessage\<close> is the caller's function: from its own state and
  the argument it is called with, it gives its next state and whether it threw. The
  parameter is optional (\<open>onMessage?.(...)\<close>): \<open>None\<close> is an absent callback.
\<close>

type_synonym 'k callback = "'k \<Rightarrow> json \<Rightarrow> 'k \<times> bool"

text \<open>
  \<open>onMessage?.(a)\<close>: the calls made (none without a callback), the callback's state
  afterwards and whether the call threw.
\<close>

definition invoke :: "'k callback option \<Rightarrow> 'k \<Rightarrow> json \<Rightarrow> json list \<times> 'k \<times> bool" where
  "invoke onMessage k a =
     (case onMessage of
        None \<Rightarrow> ([], k, False)
      | Some cb \<Rightarrow> (let (k1, threw) = cb k a in ([a], k1, threw)))"

text \<open>
  The argument computed in the \<open>try\<close> block, \<open>parsed.content || data\<close>, or \<open>None\<close>
  when computing it throws. \<open>JSON.parse\<close> is a parameter (\<open>None\<close>: it throws); an
  object is the list of its properties. \<open>parsed.content\<close> throws on \<open>null\<close> and is
  \<open>undefined\<close> on every value that is not an object with that key, and a falsy
  content gives way to \<open>data\<close>.
\<close>

definition try_arg :: "(string \<Rightarrow> json option) \<Rightarrow> string \<Rightarrow> json option" where
  "try_arg parse data =
     (case parse data of
        None \<Rightarrow> None
      | Some JNull \<Rightarrow> None
      | Some (JObj kvs) \<Rightarrow>
          (case map_of kvs ''content'' of
             None \<Rightarrow> Some (JStr data)
           | Some v \<Rightarrow> Some (if truthy v then v else JStr data))
      | Some _ \<Rightarrow> Some (JStr data))"

text \<open>
  The argument of the first \<open>onMessage\<close> call for a payload: the one computed in the
  \<open>try\<close> block, or \<open>data\<close> itself from the \<open>catch\<close> block when computing it threw.
\<close>

definition chunk_arg :: "(string \<Rightarrow> json option) \<Rightarrow> string \<Rightarrow> json" where
  "chunk_arg parse data =
     (case parse data of
        None \<Rightarrow> JStr data
      | Some (JObj kvs) \<Rightarrow>
          (case map_of kvs ''content'' of
             None \<Rightarrow> JStr data
           | Some v \<Rightarrow> if truthy v then v else JStr data)
      | Some _ \<Rightarrow> JStr data)"

text \<open>
  The \<open>try { ... } catch { onMessage?.(data) }\<close> statement for one payload. The
  callback is called inside the \<open>try\<close>, so when that call throws, the \<open>catch\<close> calls
  it again with \<open>data\<close>. The last component tells whether a throw left the statement:
  that is a throw of the call in the \<open>catch\<close> block.
\<close>

definition handle_data ::
  "'k callback option \<Rightarrow> (string \<Rightarrow> json option) \<Rightarrow> 'k \<Rightarrow> string \<Rightarrow> json list \<times> 'k \<times> bool" where
  "handle_data onMessage parse k data =
     (case try_arg parse data of
        None \<Rightarrow> invoke onMessage k (JStr data)
      | Some a \<Rightarrow>
          (let (c1, k1, threw1) = invoke onMessage k a
           in if threw1
              then (let (c2, k2, threw2) = invoke onMessage k1 (JStr data)
                    in (c1 @ c2, k2, threw2))
              else (c1, k1, False)))"

text \<open>
  The \<open>for (const line of lines)\<close> loop: the arguments passed to \<open>onMessage\<close>, in call
  order, the callback's state, and how the loop was left: at its end, through
  \<open>resolve(); return\<close> at a \<open>[DONE]\<close> line, or by a throw.
\<close>

datatype loop_exit = FellThrough | SawDone | Threw

fun process_lines ::
  "'k callback option \<Rightarrow> (string \<Rightarrow> json option) \<Rightarrow> 'k \<Rightarrow> string list \<Rightarrow>
     json list \<times> 'k \<times> loop_exit" where
  "process_lines onMessage parse k [] = ([], k, FellThrough)"
| "process_lines onMessage parse k (line # rest) =
     (if take 6 line = ''data: ''
      then (let data = drop 6 line in
            if data = ''[DONE]'' then ([], k, SawDone)
            else (let (c, k1, threw) = handle_data onMessage parse k data
                  in if threw then (c, k1, Threw)
                     else (let (cs, k2, x) = process_lines onMessage parse k1 rest
                           in (c @ cs, k2, x))))
      else process_lines onMessage parse k rest)"

text \<open>
  The \<open>while (true)\<close> loop over \<open>reader.read()\<close>. The reads are the chunks the body
  delivers, followed by \<open>{done: true}\<close> or by a rejected read. A throw that leaves
  the line loop, like a rejected read, reaches the outer \<open>catch\<close>, which rejects.
\<close>

datatype read_end = ReadDone | ReadError

datatype outcome = Resolved | Rejected

fun read_loop ::
  "'k callback option \<Rightarrow> (string \<Rightarrow> json option) \<Rightarrow> ('d \<Rightarrow> byte \<Rightarrow> 'd \<times> string) \<Rightarrow> 'd \<Rightarrow>
     'k \<Rightarrow> string \<Rightarrow> byte list list \<Rightarrow> read_end \<Rightarrow> json list \<times> outcome" where
  "read_loop onMessage parse dec d k buffer [] e =
     ([], case e of ReadDone \<Rightarrow> Resolved | ReadError \<Rightarrow> Rejected)"
| "read_loop onMessage parse dec d k buffer (v # vs) e =
     (let (d1, tx) = decode dec d v;
          lines = split_nl (buffer @ tx);
          buffer1 = pop_or_empty lines;
          (out, k1, x) = process_lines onMessage parse k (butlast lines)
      in case x of
           SawDone \<Rightarrow> (out, Resolved)
         | Threw \<Rightarrow> (out, Rejected)
         | FellThrough \<Rightarrow>
             (let (out1, r) = read_loop onMessage parse dec d1 k1 buffer1 vs e
              in (out @ out1, r)))"

text \<open>
  What \<open>fetch\<close> settles with: a rejection, or a response with its \<open>status\<close> and its
  body (\<open>None\<close>: \<open>response.body\<close> is null). \<open>response.ok\<close> is a status in 200..299.
\<close>

datatype fetch_result =
    FetchRejected
  | FetchResponse nat "(byte list list \<times> read_end) option"

definition response_ok :: "nat \<Rightarrow> bool" where
  "response_ok status = (200 \<le> status \<and> status \<le> 299)"

text \<open>
  The handler of the settled \<open>fetch\<close>: the calls made to \<open>onMessage\<close>, in order, and
  how the promise of \<open>stream\<close> settles. \<open>k0\<close> is the callback's state at the start and
  \<open>d0\<close> the state of a new \<open>TextDecoder\<close>.
\<close>

fun stream_response ::
  "'k callback option \<Rightarrow> 'k \<Rightarrow> ('d \<Rightarrow> byte \<Rightarrow> 'd \<times> string) \<Rightarrow> 'd \<Rightarrow>
     (string \<Rightarrow> json option) \<Rightarrow> fetch_result \<Rightarrow> json list \<times> outcome" where
  "stream_response onMessage k0 dec d0 parse FetchRejected = ([], Rejected)"
| "stream_response onMessage k0 dec d0 parse (FetchResponse status body) =
     (if \<not> response_ok status then ([], Rejected)
      else (case body of
              None \<Rightarrow> ([], Rejected)
            | Some (chunks, e) \<Rightarrow> read_loop onMessage parse dec d0 k0 [] chunks e))"

text \<open>
  The stream as a whole, for stating what is delivered: the text of all chunks, its
  complete lines (those ended by a newline), and the payloads of its \<open>data: \<close> lines.
\<close>

definition stream_text :: "('d \<Rightarrow> byte \<Rightarrow> 'd \<times> string) \<Rightarrow> 'd \<Rightarrow> byte list list \<Rightarrow> string" where
  "stream_text dec d0 chunks = snd (decode dec d0 (concat chunks))"

definition complete_lines :: "string \<Rightarrow> string list" where
  "complete_lines t = butlast (split_nl t)"

definition payloads :: "string list \<Rightarrow> string list" where
  "payloads ls = map (drop 6) (filter (\<lambda>l. take 6 l = ''data: '') ls)"

text \<open>
  The calls one payload can cause: the first call, and after it the second call from
  the \<open>catch\<close> block when the first one threw.
\<close>

definition calls_for :: "(string \<Rightarrow> json option) \<Rightarrow> string \<times> bool \<Rightarrow> json list" where
  "calls_for parse pr =
     (if snd pr then [chunk_arg parse (fst pr), JStr (fst pr)] else [chunk_arg parse (fst pr)])"

text \<open>
  A decoder step for a body of ASCII bytes: every byte is one character and there is
  nothing to carry over.
\<close>

definition ascii_step :: "unit \<Rightarrow> byte \<Rightarrow> unit \<times> string" where
  "ascii_step d b = ((), [b])"

text \<open>
  Two callbacks whose state is the number of calls so far: one that never throws, one
  that throws at its first call only.
\<close>

definition counting :: "nat callback" where
  "counting k a = (Suc k, False)"

definition throwing_once :: "nat callback" where
  "throwing_once k a = (Suc k, k = 0)"

text \<open>
  How the promise settles once the loops are left: resolved at \<open>[DONE]\<close>, rejected by
  a throw, and otherwise by the way the reads ended.
\<close>

definition exit_outcome :: "read_end \<Rightarrow> loop_exit \<Rightarrow> outcome" where
  "exit_outcome e x =
     (case x of
        SawDone \<Rightarrow> Resolved
      | Threw \<Rightarrow> Rejected
      | FellThrough \<Rightarrow> (case e of ReadDone \<Rightarrow> Resolved | ReadError \<Rightarrow> Rejected))"

section \<open>The auth store (\<open>useAuthStore\<close>) and the HTTP client (\<open>ApiService\<close>)\<close>

record User =
  u_id :: string
  username :: string
  email :: string
  fullName :: string
  u_role :: string
  department :: "string option"
  isActive :: bool
  isSuperuser :: bool

record AuthState =
  user :: "User option"
  token :: "string option"
  refreshToken :: "string option"
  isAuthenticated :: bool
  isLoading :: bool

definition initialState :: AuthState where
  "initialState =
     \<lparr> user = None, token = None, refreshToken = None,
       isAuthenticated = False, isLoading = False \<rparr>"

text \<open>What \<open>partialize\<close> keeps of the state for the persisted entry.\<close>

record persisted =
  p_token :: "string option"
  p_refreshToken :: "string option"
  p_user :: "User option"
  p_isAuthenticated :: bool

definition partialize :: "AuthState \<Rightarrow> persisted" where
  "partialize a =
     \<lparr> p_token = token a, p_refreshToken = refreshToken a, p_user = user a,
       p_isAuthenticated = isAuthenticated a \<rparr>"

text \<open>The error toasts of the response interceptor (\<open>message.error\<close>), by their case.\<close>

datatype toast =
    ToastLoginExpired
  | ToastForbidden
  | ToastNotFound
  | ToastTooManyRequests
  | ToastServerError
  | ToastServiceUnavailable
  | ToastRequestFailed "string option"
  | ToastNetworkFailed
  | ToastUnknownError

text \<open>
  The browser-side state the two modules share: the store's state, \<open>localStorage\<close>,
  \<open>window.location.href\<close> and the toasts shown so far.
\<close>

record client =
  auth :: AuthState
  localStorage :: "string \<rightharpoonup> persisted"
  location :: string
  toasts :: "toast list"

text \<open>
  The store's \<open>set\<close> under the \<open>persist\<close> middleware (\<open>name: 'auth-storage'\<close>): the
  state is updated, then its partialized copy is written under that name.
\<close>

definition set_auth :: "(AuthState \<Rightarrow> AuthState) \<Rightarrow> client \<Rightarrow> client" where
  "set_auth f c =
     (let a = f (auth c)
      in c \<lparr> auth := a, localStorage := (localStorage c)(''auth-storage'' \<mapsto> partialize a) \<rparr>)"

definition login :: "string \<Rightarrow> string \<Rightarrow> User \<Rightarrow> client \<Rightarrow> client" where
  "login tok rtok u c =
     set_auth (\<lambda>a. a \<lparr> token := Some tok, refreshToken := Some rtok, user := Some u,
                       isAuthenticated := True, isLoading := False \<rparr>) c"

definition logout :: "client \<Rightarrow> client" where
  "logout c =
     (let c1 = set_auth (\<lambda>a. initialState) c
      in c1 \<lparr> localStorage := (localStorage c1)(''auth-storage'' := None) \<rparr>)"

definition clearAuth :: "client \<Rightarrow> client" where
  "clearAuth c = set_auth (\<lambda>a. initialState) c"

definition setLoading :: "bool \<Rightarrow> client \<Rightarrow> client" where
  "setLoading loading c = set_auth (\<lambda>a. a \<lparr> isLoading := loading \<rparr>) c"

text \<open>
  A failed axios request, as the response interceptor's error handler sees it:
  \<open>error.response\<close> with its status and the \<open>detail\<close> and \<open>message\<close> of its body, or
  \<open>error.request\<close> alone (no response arrived), or neither.
\<close>

datatype http_error =
    ErrorResponse nat "string option" "string option"
  | ErrorRequest
  | ErrorOther

text \<open>\<open>data?.detail || data?.message || (the default text)\<close>: \<open>None\<close> is the default.\<close>

definition first_truthy :: "string option \<Rightarrow> string option \<Rightarrow> string option" where
  "first_truthy detail msg =
     (if detail \<noteq> None \<and> detail \<noteq> Some [] then detail
      else if msg \<noteq> None \<and> msg \<noteq> Some [] then msg
      else None)"

definition status_toast :: "nat \<Rightarrow> string option \<Rightarrow> string option \<Rightarrow> toast" where
  "status_toast status detail msg =
     (if status = 403 then ToastForbidden
      else if status = 404 then ToastNotFound
      else if status = 429 then ToastTooManyRequests
      else if status = 500 then ToastServerError
      else if status = 502 \<or> status = 503 \<or> status = 504 then ToastServiceUnavailable
      else ToastRequestFailed (first_truthy detail msg))"

text \<open>The error handler of the response interceptor; the error is then rethrown.\<close>

fun on_response_error :: "http_error \<Rightarrow> client \<Rightarrow> client" where
  "on_response_error (ErrorResponse status detail msg) c =
     (if status = 401
      then (logout (c \<lparr> toasts := toasts c @ [ToastLoginExpired] \<rparr>)) \<lparr> location := ''/login'' \<rparr>
      else c \<lparr> toasts := toasts c @ [status_toast status detail msg] \<rparr>)"
| "on_response_error ErrorRequest c = c \<lparr> toasts := toasts c @ [ToastNetworkFailed] \<rparr>"
| "on_response_error ErrorOther c = c \<lparr> toasts := toasts c @ [ToastUnknownError] \<rparr>"

text \<open>
  The request interceptor adds \<open>Authorization: Bearer <token>\<close> when the token is truthy.
\<close>

definition authorization :: "client \<Rightarrow> string option" where
  "authorization c =
     (case token (auth c) of
        None \<Rightarrow> None
      | Some t \<Rightarrow> if t = [] then None else Some (''Bearer '' @ t))"

text \<open>
  A request through the axios instance (\<open>get\<close>, \<open>post\<close>, \<open>put\<close>, \<open>delete\<close>, \<open>patch\<close>,
  \<open>upload\<close>, \<open>uploadMultiple\<close>, \<open>download\<close>) settles with data or with an error; an
  error passes through the response interceptor before the caller sees it.
\<close>

datatype 'a http_result = HttpOk 'a | HttpErr http_error

definition request :: "'a http_result \<Rightarrow> client \<Rightarrow> client \<times> 'a http_result" where
  "request res c =
     (case res of
        HttpOk v \<Rightarrow> (c, HttpOk v)
      | HttpErr e \<Rightarrow> (on_response_error e c, HttpErr e))"

text \<open>
  \<open>stream\<close> calls \<open>fetch\<close> itself, with the header
  \<open>token ? `Bearer ${token}` : ''\<close>; it reads the store and changes nothing.
\<close>

definition stream_authorization :: "client \<Rightarrow> string" where
  "stream_authorization c =
     (case token (auth c) of
        None \<Rightarrow> []
      | Some t \<Rightarrow> if t = [] then [] else ''Bearer '' @ t)"

definition stream ::
  "'k callback option \<Rightarrow> 'k \<Rightarrow> ('d \<Rightarrow> byte \<Rightarrow> 'd \<times> string) \<Rightarrow> 'd \<Rightarrow>
     (string \<Rightarrow> json option) \<Rightarrow> fetch_result \<Rightarrow> client \<Rightarrow> client \<times> json list \<times> outcome" where
  "stream onMessage k0 dec d0 parse fetched c =
     (c, stream_response onMessage k0 dec d0 parse fetched)"

section \<open>The task decomposer\<close>

text \<open>
  Modelled from the spec: the Task Decomposer (section 4.3) runs on the server and is not
  among the sources. A task has an id, the id of its parent request, a required
  capability, an input payload, the ids of the tasks that must complete first, and the
  flag that marks it required. A task graph is the list of its tasks.
\<close>

datatype task_status = Pending | Running | Succeeded | Failed

record task =
  task_id :: nat
  parent_request :: nat
  required_capability :: string
  input_payload :: string
  dependencies :: "nat list"
  required :: bool

text \<open>
  Modelled from the spec: a task is eligible once all its dependencies are finished; the
  ready set is recomputed after each round of completions. The rounds either empty the
  pending list, which yields an order in which every task follows its dependencies, or
  reach a pending list with no eligible task: the graph is cyclic or names a missing task.
\<close>

definition ready :: "nat list \<Rightarrow> task \<Rightarrow> bool" where
  "ready finished t = list_all (\<lambda>d. d \<in> set finished) (dependencies t)"

function topo_order :: "task list \<Rightarrow> nat list \<Rightarrow> nat list option" where
  "topo_order pending finished =
     (if pending = [] then Some finished
      else if filter (ready finished) pending = [] then None
      else topo_order (filter (\<lambda>t. \<not> ready finished t) pending)
             (finished @ map task_id (filter (ready finished) pending)))"
  by pat_completeness auto
termination
proof (relation "measure (\<lambda>(pending, finished). length pending)")
  show "wf (measure (\<lambda>(pending, finished). length pending))" by simp
next
  fix pending :: "task list" and finished :: "nat list"
  assume "filter (ready finished) pending \<noteq> []"
  then have "0 < length (filter (ready finished) pending)" by simp
  moreover have "length (filter (ready finished) pending)
                   + length (filter (\<lambda>t. \<not> ready finished t) pending) = length pending"
    by (rule sum_length_filter_compl)
  ultimately have "length (filter (\<lambda>t. \<not> ready finished t) pending) < length pending"
    by linarith
  then show "((filter (\<lambda>t. \<not> ready finished t) pending,
                 finished @ map task_id (filter (ready finished) pending)), (pending, finished))
               \<in> measure (\<lambda>(pending, finished). length pending)"
    by simp
qed

datatype decomposition_error = InvalidDecomposition | TaskFailed "(nat \<times> string option) list"

text \<open>
  Modelled from the spec: decomposition rejects a malformed graph (two tasks with one
  id) and a graph with no dependency order with \<open>InvalidDecomposition\<close>.
\<close>

definition validate :: "task list \<Rightarrow> decomposition_error + nat list" where
  "validate g =
     (if \<not> distinct (map task_id g) then Inl InvalidDecomposition
      else (case topo_order g [] of
              None \<Rightarrow> Inl InvalidDecomposition
            | Some order \<Rightarrow> Inr order))"

text \<open>
  Modelled from the spec: execution in dependency order. \<open>exec\<close> is the agent invocation
  (\<open>None\<close>: the task fails). A task with a failed dependency is marked failed without
  executing; a failed task is kept in the aggregate as a flagged partial failure
  (\<open>None\<close>), unless it is required, when the decomposition fails with \<open>TaskFailed\<close> and
  the partial results. The first component of the result is the list of the ids of the
  tasks that ran, in the order they ran.
\<close>

definition has_failed :: "(nat \<times> string option) list \<Rightarrow> nat \<Rightarrow> bool" where
  "has_failed outs d = (map_of outs d = Some None)"

fun run_order ::
  "(task \<Rightarrow> string option) \<Rightarrow> task list \<Rightarrow> nat list \<Rightarrow> (nat \<times> string option) list \<Rightarrow>
     nat list \<Rightarrow> nat list \<times> (decomposition_error + (nat \<times> string option) list)" where
  "run_order exec g [] outs trace = (trace, Inr outs)"
| "run_order exec g (i # rest) outs trace =
     (case find (\<lambda>t. task_id t = i) g of
        None \<Rightarrow> run_order exec g rest outs trace
      | Some t \<Rightarrow>
          if list_ex (has_failed outs) (dependencies t)
          then (if required t then (trace, Inl (TaskFailed (outs @ [(i, None)])))
                else run_order exec g rest (outs @ [(i, None)]) trace)
          else (case exec t of
                  Some r \<Rightarrow> run_order exec g rest (outs @ [(i, Some r)]) (trace @ [i])
                | None \<Rightarrow>
                    if required t then (trace @ [i], Inl (TaskFailed (outs @ [(i, None)])))
                    else run_order exec g rest (outs @ [(i, None)]) (trace @ [i])))"

definition submit ::
  "(task \<Rightarrow> string option) \<Rightarrow> task list \<Rightarrow>
     nat list \<times> (decomposition_error + (nat \<times> string option) list)" where
  "submit exec g =
     (case validate g of
        Inl e \<Rightarrow> ([], Inl e)
      | Inr order \<Rightarrow> run_order exec g order [] [])"

text \<open>
  A cycle of a task graph: a non-empty list of task ids in which each task depends on
  the next one and the last depends on the first.
\<close>

definition edge :: "task list \<Rightarrow> nat \<Rightarrow> nat \<Rightarrow> bool" where
  "edge g a b = list_ex (\<lambda>t. task_id t = a \<and> b \<in> set (dependencies t)) g"

fun path_ok :: "task list \<Rightarrow> nat list \<Rightarrow> bool" where
  "path_ok g [] = True"
| "path_ok g [x] = True"
| "path_ok g (x # y # r) = (edge g x y \<and> path_ok g (y # r))"

definition is_cycle :: "task list \<Rightarrow> nat list \<Rightarrow> bool" where
  "is_cycle g p = (p \<noteq> [] \<and> path_ok g (p @ [hd p]))"

section \<open>The tool bridge\<close>

text \<open>
  Modelled from the spec: the Tool Bridge (section 4.5) runs on the server and is not
  among the sources. A provider has a name, an endpoint, declared capabilities, a health
  state and the count of its consecutive failed probes; the bridge is the list of the
  registered providers.
\<close>

datatype health = Healthy | Unhealthy

record tool_provider =
  tp_name :: string
  tp_endpoint :: string
  tp_capabilities :: "string list"
  tp_health :: health
  tp_failed_probes :: nat

datatype bridge_error =
    DuplicateProvider
  | ProviderNotFound
  | ToolTimeout
  | ToolError string

text \<open>Modelled from the spec: \<open>register\<close> fails with \<open>DuplicateProvider\<close> on a name collision.\<close>

definition register ::
  "string \<Rightarrow> string \<Rightarrow> string list \<Rightarrow> tool_provider list \<Rightarrow> bridge_error + tool_provider list" where
  "register name ep caps bridge =
     (if name \<in> set (map tp_name bridge) then Inl DuplicateProvider
      else Inr (bridge @ [\<lparr> tp_name = name, tp_endpoint = ep, tp_capabilities = caps,
                            tp_health = Healthy, tp_failed_probes = 0 \<rparr>]))"

text \<open>
  Modelled from the spec: a provider probed unhealthy twice consecutively is excluded
  until a successful probe restores it.
\<close>

definition probed :: "bool \<Rightarrow> tool_provider \<Rightarrow> tool_provider" where
  "probed ok p =
     (if ok then p \<lparr> tp_health := Healthy, tp_failed_probes := 0 \<rparr>
      else p \<lparr> tp_health := (if Suc (tp_failed_probes p) \<ge> 2 then Unhealthy else tp_health p),
               tp_failed_probes := Suc (tp_failed_probes p) \<rparr>)"

definition probe :: "string \<Rightarrow> bool \<Rightarrow> tool_provider list \<Rightarrow> tool_provider list" where
  "probe name ok bridge = map (\<lambda>p. if tp_name p = name then probed ok p else p) bridge"

text \<open>
  Modelled from the spec: one dispatch to a provider, as the bridge observes it: the time
  the provider took and its answer, a result (\<open>Inr\<close>) or an error payload (\<open>Inl\<close>).
  The provider's behaviour \<open>net\<close>, from endpoint, tool name and arguments to such a
  reply, is a parameter.
\<close>

record provider_reply =
  duration :: nat
  answer :: "string + string"

text \<open>
  Modelled from the spec: \<open>call-tool(provider, tool name, arguments, timeout)\<close>. A call
  against an unknown provider or an unhealthy one is rejected before dispatch. Otherwise
  the call is dispatched once; a reply that takes longer than the caller's timeout is
  \<open>ToolTimeout\<close>, an error reply is \<open>ToolError\<close> with the provider's payload, and
  neither is retried. The first component of the result is the list of dispatches made
  (endpoint, tool name, arguments).
\<close>

definition call_tool ::
  "(string \<Rightarrow> string \<Rightarrow> string \<Rightarrow> provider_reply) \<Rightarrow> tool_provider list \<Rightarrow>
     string \<Rightarrow> string \<Rightarrow> string \<Rightarrow> nat \<Rightarrow>
     (string \<times> string \<times> string) list \<times> (bridge_error + string)" where
  "call_tool net bridge provider tool args timeout =
     (case find (\<lambda>p. tp_name p = provider) bridge of
        None \<Rightarrow> ([], Inl ProviderNotFound)
      | Some p \<Rightarrow>
          if tp_health p = Unhealthy then ([], Inl (ToolError ''provider unhealthy''))
          else (let r = net (tp_endpoint p) tool args
                in ([(tp_endpoint p, tool, args)],
                    if duration r > timeout then Inl ToolTimeout
                    else (case answer r of
                            Inl payload \<Rightarrow> Inl (ToolError payload)
                          | Inr v \<Rightarrow> Inr v))))"

section \<open>Blank input\<close>

lemma trim_all_space:
  assumes "list_all is_space s"
  shows "trim s = []"
proof -
  have "dropWhile is_space s = []"
    using assms by (simp add: list_all_iff)
  then show ?thesis
    unfolding trim_def by (simp del: dropWhile_eq_Nil_conv)
qed

lemma trim_empty_iff: "trim s = [] \<longleftrightarrow> list_all is_space s"
proof
  assume "trim s = []"
  then have "\<forall>x \<in> set (dropWhile is_space s). is_space x"
    by (simp add: trim_def)
  then have "dropWhile is_space s = []"
    using hd_dropWhile [of is_space s] by (cases "dropWhile is_space s") (auto simp del: dropWhile_eq_Nil_conv)
  then show "list_all is_space s"
    by (simp add: list_all_iff)
next
  assume "list_all is_space s"
  then show "trim s = []" by (rule trim_all_space)
qed

text \<open>
  C9. When the current input is empty or consists only of white space, \<open>handleSendMessage\<close>
  does nothing: the state (message list, typing indicator, input) is returned unchanged and
  nothing is sent over the socket or over HTTP. The send button is disabled for such input.
\<close>

theorem handleSendMessage_blank_noop:
  assumes "list_all is_space (currentMessage s)"
  shows "handleSendMessage nowMs nowIso s = (s, []) \<and> send_disabled s"
  using assms by (simp add: handleSendMessage_def send_disabled_def trim_all_space)

theorem handleSendMessage_blank_noop_witness:
  "handleSendMessage ''1700000000000'' ''2023-11-14T22:13:20.000Z''
     \<lparr> currentMessage = [CHR '' '', CHR 0x09, CHR 0x0A], selectedAgent = Some ''sales'',
       currentConversationId = None, messages = [], isTyping = False, ws = Some OPEN \<rparr>
   = (\<lparr> currentMessage = [CHR '' '', CHR 0x09, CHR 0x0A], selectedAgent = Some ''sales'',
        currentConversationId = None, messages = [], isTyping = False, ws = Some OPEN \<rparr>, [])"
  using handleSendMessage_blank_noop
    [where s = "\<lparr> currentMessage = [CHR '' '', CHR 0x09, CHR 0x0A], selectedAgent = Some ''sales'',
           currentConversationId = None, messages = [], isTyping = False, ws = Some OPEN \<rparr>"
       and nowMs = "''1700000000000''" and nowIso = "''2023-11-14T22:13:20.000Z''"]
  by (simp add: is_space_def)

section \<open>Append-only message list\<close>

lemma chat_step_appends: "messages (chat_step e s) = messages s @ appended e s"
proof (cases e)
  case (WsReceived nowMs ev)
  then show ?thesis by (cases ev) simp_all
qed (simp_all add: handleSendMessage_def onSuccess_def onError_def)

lemma chat_run_appends: "messages (chat_run es s) = messages s @ append_log es s"
  by (induction es arbitrary: s) (simp_all add: chat_step_appends)

text \<open>
  C1. Every append operation puts its message at the end of the existing list and leaves
  the earlier messages as they were: the user's turn in \<open>handleSendMessage\<close>, the agent
  response in \<open>onSuccess\<close>, the agent message in \<open>websocket.onmessage\<close>. Over any run of
  such events the list read back is the starting list followed by the appended messages
  in the order of their events.
\<close>

theorem messages_append_only:
  "messages (fst (handleSendMessage nowMs nowIso s))
     = messages s @ (if trim (currentMessage s) = [] then [] else [userMessage nowMs nowIso s])
   \<and> messages (fst (onSuccess r s)) = messages s @ [newMessage r]
   \<and> messages (onmessage nowMs (WsMessageEvent d ts) s) = messages s @ [wsMessage nowMs d ts]
   \<and> messages (chat_run es s) = messages s @ append_log es s
   \<and> take (length (messages s)) (messages (chat_run es s)) = messages s"
  by (simp add: handleSendMessage_def onSuccess_def chat_run_appends)

theorem messages_append_only_witness:
  "messages (chat_run
       [InputChanged ''hi'', SendClicked ''1700000000000'' ''2023-11-14T22:13:20.000Z'',
        HttpSucceeded \<lparr> resp_id = ''m1'', resp_message = ''hello'', resp_timestamp = ''t1'',
          resp_agent_id = Some ''sales'', resp_agent_name = None, resp_metadata = None,
          resp_conversation_id = Some ''c1'' \<rparr>]
       initial_chat_state)
   = [\<lparr> msg_id = ''1700000000000'', role = User, content = ''hi'',
        timestamp = ''2023-11-14T22:13:20.000Z'', agent_id = None, agent_name = None,
        metadata = None \<rparr>,
      \<lparr> msg_id = ''m1'', role = Assistant, content = ''hello'', timestamp = ''t1'',
        agent_id = Some ''sales'', agent_name = None, metadata = None \<rparr>]"
  using messages_append_only
    [where s = initial_chat_state
       and es = "[InputChanged ''hi'', SendClicked ''1700000000000'' ''2023-11-14T22:13:20.000Z'',
          HttpSucceeded \<lparr> resp_id = ''m1'', resp_message = ''hello'', resp_timestamp = ''t1'',
            resp_agent_id = Some ''sales'', resp_agent_name = None, resp_metadata = None,
            resp_conversation_id = Some ''c1'' \<rparr>]"]
  by (simp add: initial_chat_state_def userMessage_def newMessage_def trim_def is_space_def)

section \<open>WebSocket first, HTTP otherwise\<close>

text \<open>
  C2. A send of a non-blank message emits exactly one request. With an open socket it is
  one \<open>chat\<close> frame on the socket and no HTTP request; otherwise it is one
  \<open>POST /chat/message\<close> carrying the same request (message text, conversation id,
  preferred agent id), whose single complete response \<open>onSuccess\<close> appends as one message.
\<close>

theorem send_socket_or_http:
  assumes "trim (currentMessage s) \<noteq> []"
  shows "snd (handleSendMessage nowMs nowIso s)
           = (if ws s = Some OPEN
              then [WsSend ''chat'' (chatRequest s)]
              else [HttpPost ''/chat/message'' (chatRequest s)])
       \<and> chatRequest s
           = \<lparr> req_message = trim (currentMessage s),
               req_conversation_id = currentConversationId s,
               req_preferred_agent_id = selectedAgent s \<rparr>
       \<and> messages (fst (onSuccess r (fst (handleSendMessage nowMs nowIso s))))
           = messages s @ [userMessage nowMs nowIso s, newMessage r]"
  using assms by (simp add: handleSendMessage_def chatRequest_def onSuccess_def)

theorem send_socket_or_http_witness:
  "snd (handleSendMessage ''1'' ''t'' (onopen (chat_step (InputChanged '' hi '') initial_chat_state)))
     = [WsSend ''chat'' \<lparr> req_message = ''hi'', req_conversation_id = None,
          req_preferred_agent_id = None \<rparr>]
   \<and> snd (handleSendMessage ''1'' ''t'' (chat_step (InputChanged '' hi '') initial_chat_state))
     = [HttpPost ''/chat/message'' \<lparr> req_message = ''hi'', req_conversation_id = None,
          req_preferred_agent_id = None \<rparr>]"
  using send_socket_or_http
          [where s = "onopen (chat_step (InputChanged '' hi '') initial_chat_state)"
             and nowMs = "''1''" and nowIso = "''t''"]
        send_socket_or_http
          [where s = "chat_step (InputChanged '' hi '') initial_chat_state"
             and nowMs = "''1''" and nowIso = "''t''"]
  by (simp add: initial_chat_state_def onopen_def trim_def is_space_def)

section \<open>A failed send\<close>




section \<open>Preferred agent\<close>

lemma find_unique:
  assumes "a \<in> set xs" and "P a" and "\<forall>x \<in> set xs. P x \<longrightarrow> x = a"
  shows "find P xs = Some a"
  using assms
proof (induction xs)
  case Nil
  then show ?case by simp
next
  case (Cons x xs)
  show ?case
  proof (cases "P x")
    case True
    with Cons.prems(3) have "x = a" by simp
    with True show ?thesis by simp
  next
    case False
    with Cons.prems(1,2) have "a \<in> set xs" by auto
    moreover from Cons.prems(3) have "\<forall>y \<in> set xs. P y \<longrightarrow> y = a" by simp
    ultimately have "find P xs = Some a" using Cons.IH Cons.prems(2) by blast
    with False show ?thesis by simp
  qed
qed

lemma find_active_by_id:
  assumes "a \<in> set registry" and "ra_active a" and "distinct (map ra_id registry)"
  shows "find (\<lambda>x. ra_id x = ra_id a \<and> ra_active x) registry = Some a"
proof (rule find_unique)
  show "a \<in> set registry" by (rule assms(1))
  show "ra_id a = ra_id a \<and> ra_active a" using assms(2) by simp
  show "\<forall>x \<in> set registry. ra_id x = ra_id a \<and> ra_active x \<longrightarrow> x = a"
    using assms(1,3) by (auto simp: distinct_map dest: inj_onD)
qed

lemma find_some_active:
  assumes "a \<in> set registry" and "ra_active a"
  shows "\<exists>b. find (\<lambda>x. ra_id x = ra_id a \<and> ra_active x) registry = Some b
             \<and> ra_id b = ra_id a \<and> ra_active b"
proof -
  have "find (\<lambda>x. ra_id x = ra_id a \<and> ra_active x) registry \<noteq> None"
    using assms by (auto simp: find_None_iff)
  then obtain b where b: "find (\<lambda>x. ra_id x = ra_id a \<and> ra_active x) registry = Some b"
    by auto
  then have "ra_id b = ra_id a \<and> ra_active b"
    by (auto simp: find_Some_iff)
  with b show ?thesis by simp
qed

lemma selectable_active:
  "set (selectable (agent_options agents)) = a_id ` {x \<in> set agents. is_active x}"
  by (induction agents) (auto simp: selectable_def agent_options_def)

lemma onChangeAgent_active:
  "selectedAgent (onChangeAgent agents v s) = selectedAgent s
     \<or> selectedAgent (onChangeAgent agents v s) = None
     \<or> (\<exists>x \<in> set agents. is_active x \<and> selectedAgent (onChangeAgent agents v s) = Some (a_id x))"
  by (cases v) (auto simp: onChangeAgent_def selectable_active)

text \<open>
  C4. When the request names a preferred agent that is registered and active, the router
  selects an active agent with that id whatever the score function is, and with unique
  ids it is that very agent. \<open>handleSendMessage\<close> forwards the selected agent unchanged
  in the one request it emits, on the socket and over HTTP alike, and the selector lets
  the user pick the ids of active agents only.
\<close>

theorem preferred_agent_selected:
  assumes "a \<in> set registry" and "ra_active a"
    and "trim (currentMessage s) \<noteq> []" and "selectedAgent s = Some (ra_id a)"
  shows "(\<exists>b. route score registry msg (Some (ra_id a)) hints = Inr b
             \<and> ra_id b = ra_id a \<and> ra_active b)
       \<and> (distinct (map ra_id registry) \<longrightarrow>
             route score registry msg (Some (ra_id a)) hints = Inr a
             \<and> route_request score registry (chatRequest s) = Inr a)
       \<and> map sent_request (snd (handleSendMessage nowMs nowIso s)) = [Some (chatRequest s)]
       \<and> req_preferred_agent_id (chatRequest s) = selectedAgent s
       \<and> set (selectable (agent_options agents)) = a_id ` {x \<in> set agents. is_active x}
       \<and> (selectedAgent (onChangeAgent agents v s) = selectedAgent s
            \<or> selectedAgent (onChangeAgent agents v s) = None
            \<or> (\<exists>x \<in> set agents. is_active x \<and> selectedAgent (onChangeAgent agents v s) = Some (a_id x)))"
proof -
  have r1: "\<exists>b. route score registry msg (Some (ra_id a)) hints = Inr b
             \<and> ra_id b = ra_id a \<and> ra_active b"
    using find_some_active [OF assms(1,2)] by (auto simp: route_def)
  have r2: "route score registry m (Some (ra_id a)) h = Inr a"
    if "distinct (map ra_id registry)" for m h
    using find_active_by_id [OF assms(1,2) that] by (simp add: route_def)
  have r3: "route_request score registry (chatRequest s) = Inr a"
    if "distinct (map ra_id registry)"
    using r2 [OF that] assms(4) by (simp add: route_request_def chatRequest_def)
  have f: "map sent_request (snd (handleSendMessage nowMs nowIso s)) = [Some (chatRequest s)]"
    using assms(3) by (simp add: handleSendMessage_def)
  have q: "req_preferred_agent_id (chatRequest s) = selectedAgent s"
    by (simp add: chatRequest_def)
  show ?thesis
    using r1 r2 r3 f q selectable_active [of agents] onChangeAgent_active [of agents v s]
    by blast
qed

theorem preferred_agent_selected_witness:
  "route (\<lambda>m h x. if ra_id x = ''sales'' then 100 else 0)
       [\<lparr> ra_id = ''sales'', ra_capabilities = [''sales-analysis''], ra_keywords = [],
           ra_active = True, ra_in_flight = 0 \<rparr>,
        \<lparr> ra_id = ''inventory'', ra_capabilities = [''stock-analysis''], ra_keywords = [],
           ra_active = True, ra_in_flight = 7 \<rparr>]
       ''sales report'' (Some ''inventory'') []
     = Inr \<lparr> ra_id = ''inventory'', ra_capabilities = [''stock-analysis''], ra_keywords = [],
             ra_active = True, ra_in_flight = 7 \<rparr>
   \<and> route_by_score (\<lambda>x. if ra_id x = ''sales'' then 100 else 0)
       [\<lparr> ra_id = ''sales'', ra_capabilities = [''sales-analysis''], ra_keywords = [],
           ra_active = True, ra_in_flight = 0 \<rparr>,
        \<lparr> ra_id = ''inventory'', ra_capabilities = [''stock-analysis''], ra_keywords = [],
           ra_active = True, ra_in_flight = 7 \<rparr>]
     = Inr \<lparr> ra_id = ''sales'', ra_capabilities = [''sales-analysis''], ra_keywords = [],
             ra_active = True, ra_in_flight = 0 \<rparr>"
  using preferred_agent_selected
    [where a = "\<lparr> ra_id = ''inventory'', ra_capabilities = [''stock-analysis''], ra_keywords = [],
            ra_active = True, ra_in_flight = 7 \<rparr>"
       and registry = "[\<lparr> ra_id = ''sales'', ra_capabilities = [''sales-analysis''], ra_keywords = [],
            ra_active = True, ra_in_flight = 0 \<rparr>,
          \<lparr> ra_id = ''inventory'', ra_capabilities = [''stock-analysis''], ra_keywords = [],
            ra_active = True, ra_in_flight = 7 \<rparr>]"
       and s = "onChangeAgent [\<lparr> a_id = ''inventory'', a_name = ''Inventory'', a_description = [],
            is_active = True \<rparr>] (Some ''inventory'')
           (chat_step (InputChanged ''hi'') initial_chat_state)"
       and score = "\<lambda>m h x. if ra_id x = ''sales'' then 100 else 0"
       and msg = "''sales report''" and hints = "[]"]
  by (simp add: initial_chat_state_def onChangeAgent_def selectable_def agent_options_def
        trim_def is_space_def route_by_score_def better_def)

section \<open>The streaming parser\<close>

lemma decode_append:
  "decode dec d (a @ b) =
     (let (d1, t1) = decode dec d a; (d2, t2) = decode dec d1 b in (d2, t1 @ t2))"
  by (induction a arbitrary: d) (simp_all add: split_beta Let_def)

lemma split_nl_nonempty: "split_nl s \<noteq> []"
  by (induction s) (simp_all split: list.split)

lemma split_nl_append:
  "split_nl (a @ b) = butlast (split_nl a) @ split_nl (last (split_nl a) @ b)"
proof (induction a)
  case Nil
  then show ?case by simp
next
  case (Cons c a)
  show ?case
  proof (cases "c = CHR 0x0A")
    case True
    then show ?thesis using Cons split_nl_nonempty [of a] by simp
  next
    case False
    obtain l ls where a: "split_nl a = l # ls"
      using split_nl_nonempty [of a] by (cases "split_nl a") auto
    show ?thesis
    proof (cases ls)
      case Nil
      with a False Cons show ?thesis by simp
    next
      case (Cons l' ls')
      with a False Cons.IH show ?thesis by simp
    qed
  qed
qed

lemma complete_lines_append:
  "complete_lines (a @ b) = complete_lines a @ complete_lines (pop_or_empty (split_nl a) @ b)"
  by (simp add: complete_lines_def pop_or_empty_def split_nl_nonempty split_nl_append [of a b]
        butlast_append)

lemma split_nl_no_newline: "l \<in> set (split_nl s) \<Longrightarrow> CHR 0x0A \<notin> set l"
proof (induction s arbitrary: l)
  case Nil
  then show ?case by simp
next
  case (Cons c s)
  then show ?case
    by (cases "split_nl s") (auto split: if_splits)
qed

lemma pop_or_empty_no_newline: "CHR 0x0A \<notin> set (pop_or_empty (split_nl s))"
  using split_nl_no_newline [of "last (split_nl s)" s] split_nl_nonempty [of s]
  by (simp add: pop_or_empty_def)

lemma split_nl_single: "CHR 0x0A \<notin> set s \<Longrightarrow> split_nl s = [s]"
  by (induction s) auto

lemma complete_lines_no_newline: "CHR 0x0A \<notin> set s \<Longrightarrow> complete_lines s = []"
  by (simp add: complete_lines_def split_nl_single)

lemma process_lines_append:
  "process_lines om parse k (xs @ ys) =
     (case process_lines om parse k xs of
        (c, k1, x) \<Rightarrow>
          (case x of
             FellThrough \<Rightarrow>
               (case process_lines om parse k1 ys of (c2, k2, x2) \<Rightarrow> (c @ c2, k2, x2))
           | SawDone \<Rightarrow> (c, k1, SawDone)
           | Threw \<Rightarrow> (c, k1, Threw)))"
  by (induction xs arbitrary: k) (auto simp: Let_def split: prod.splits loop_exit.splits)

lemma read_loop_whole:
  assumes "CHR 0x0A \<notin> set buffer"
  shows "read_loop om parse dec d k buffer cs e =
     (case process_lines om parse k (complete_lines (buffer @ snd (decode dec d (concat cs)))) of
        (c, k1, x) \<Rightarrow> (c, exit_outcome e x))"
  using assms
proof (induction cs arbitrary: d k buffer)
  case Nil
  then show ?case by (simp add: complete_lines_no_newline exit_outcome_def)
next
  case (Cons v vs)
  obtain d1 tx where v: "decode dec d v = (d1, tx)" by (cases "decode dec d v")
  obtain d2 t2 where vs: "decode dec d1 (concat vs) = (d2, t2)" by (cases "decode dec d1 (concat vs)")
  define buffer1 where "buffer1 = pop_or_empty (split_nl (buffer @ tx))"
  obtain c k1 x where p: "process_lines om parse k (complete_lines (buffer @ tx)) = (c, k1, x)"
    by (cases "process_lines om parse k (complete_lines (buffer @ tx))")
  have nl: "CHR 0x0A \<notin> set buffer1"
    unfolding buffer1_def by (rule pop_or_empty_no_newline)
  have whole: "snd (decode dec d (concat (v # vs))) = tx @ t2"
    by (simp add: decode_append v vs)
  have lines: "complete_lines (buffer @ tx @ t2)
                 = complete_lines (buffer @ tx) @ complete_lines (buffer1 @ t2)"
    using complete_lines_append [of "buffer @ tx" t2] by (simp add: buffer1_def)
  have ih: "read_loop om parse dec d1 k1 buffer1 vs e =
     (case process_lines om parse k1 (complete_lines (buffer1 @ t2)) of
        (c, k1, x) \<Rightarrow> (c, exit_outcome e x))"
    using Cons.IH [OF nl, of d1 k1] by (simp add: vs)
  have step: "read_loop om parse dec d k buffer (v # vs) e =
     (case x of
        SawDone \<Rightarrow> (c, Resolved)
      | Threw \<Rightarrow> (c, Rejected)
      | FellThrough \<Rightarrow>
          (case read_loop om parse dec d1 k1 buffer1 vs e of (out1, r) \<Rightarrow> (c @ out1, r)))"
    using p unfolding buffer1_def by (simp add: v complete_lines_def Let_def)
  show ?case
    unfolding whole lines step ih process_lines_append [of om parse k "complete_lines (buffer @ tx)"] p
    by (cases x) (simp_all add: exit_outcome_def split: prod.splits)
qed

lemma stream_response_whole:
  assumes "response_ok status"
  shows "stream_response om k0 dec d0 parse (FetchResponse status (Some (chunks, e))) =
     (case process_lines om parse k0 (complete_lines (stream_text dec d0 chunks)) of
        (c, k1, x) \<Rightarrow> (c, exit_outcome e x))"
  using assms read_loop_whole [of "[]" om parse dec d0 k0 chunks e]
  by (simp add: stream_text_def)

lemma chunk_arg_try:
  "chunk_arg parse data = (case try_arg parse data of None \<Rightarrow> JStr data | Some a \<Rightarrow> a)"
  by (simp add: chunk_arg_def try_arg_def split: option.splits json.splits)

lemma handle_data_no_throw:
  assumes "\<forall>k a. \<not> snd (cb k a)"
  shows "handle_data (Some cb) parse k data
           = ([chunk_arg parse data], fst (cb k (chunk_arg parse data)), False)"
  using assms
  by (auto simp: handle_data_def invoke_def chunk_arg_try Let_def split_beta prod_eq_iff
           split: option.splits)

lemma process_lines_no_throw:
  assumes "\<forall>k a. \<not> snd (cb k a)"
  shows "fst (process_lines (Some cb) parse k ls)
           = map (chunk_arg parse) (takeWhile (\<lambda>p. p \<noteq> ''[DONE]'') (payloads ls))
       \<and> snd (snd (process_lines (Some cb) parse k ls))
           = (if ''[DONE]'' \<in> set (payloads ls) then SawDone else FellThrough)"
proof (induction ls arbitrary: k)
  case Nil
  show ?case by (simp add: payloads_def)
next
  case (Cons l ls)
  show ?case
  proof (cases "take 6 l = ''data: ''")
    case False
    with Cons [of k] show ?thesis by (simp add: payloads_def)
  next
    case True
    show ?thesis
    proof (cases "drop 6 l = ''[DONE]''")
      case d: True
      with True show ?thesis by (simp add: payloads_def)
    next
      case d: False
      with True Cons [of "fst (cb k (chunk_arg parse (drop 6 l)))"] show ?thesis
        by (simp add: payloads_def handle_data_no_throw [OF assms] split_beta Let_def)
    qed
  qed
qed

lemma process_lines_no_callback: "fst (process_lines None parse k ls) = []"
  by (induction ls arbitrary: k)
     (simp_all add: handle_data_def invoke_def Let_def split_beta split: option.splits)

lemma handle_data_calls:
  "\<exists>r. fst (handle_data (Some cb) parse k data) = calls_for parse (data, r)"
proof (cases "try_arg parse data")
  case None
  then have "fst (handle_data (Some cb) parse k data) = calls_for parse (data, False)"
    by (simp add: handle_data_def invoke_def calls_for_def chunk_arg_try split_beta)
  then show ?thesis ..
next
  case (Some a)
  show ?thesis
  proof (cases "snd (cb k a)")
    case True
    with Some have "fst (handle_data (Some cb) parse k data) = calls_for parse (data, True)"
      by (simp add: handle_data_def invoke_def calls_for_def chunk_arg_try split_beta)
    then show ?thesis ..
  next
    case False
    with Some have "fst (handle_data (Some cb) parse k data) = calls_for parse (data, False)"
      by (simp add: handle_data_def invoke_def calls_for_def chunk_arg_try split_beta)
    then show ?thesis ..
  qed
qed

lemma process_lines_order:
  "\<exists>rs. map fst rs = take (length rs) (takeWhile (\<lambda>p. p \<noteq> ''[DONE]'') (payloads ls))
        \<and> fst (process_lines om parse k ls) = concat (map (calls_for parse) rs)"
proof (cases om)
  case None
  have "map fst [] = take (length []) (takeWhile (\<lambda>p. p \<noteq> ''[DONE]'') (payloads ls))
        \<and> fst (process_lines om parse k ls) = concat (map (calls_for parse) [])"
    using None by (simp add: process_lines_no_callback)
  then show ?thesis by blast
next
  case (Some cb)
  have "\<exists>rs. map fst rs = take (length rs) (takeWhile (\<lambda>p. p \<noteq> ''[DONE]'') (payloads ls))
        \<and> fst (process_lines (Some cb) parse k ls) = concat (map (calls_for parse) rs)"
  proof (induction ls arbitrary: k)
    case Nil
    have "map fst [] = take (length []) (takeWhile (\<lambda>p. p \<noteq> ''[DONE]'') (payloads []))
        \<and> fst (process_lines (Some cb) parse k []) = concat (map (calls_for parse) [])"
      by simp
    then show ?case by blast
  next
    case (Cons l ls)
    show ?case
    proof (cases "take 6 l = ''data: ''")
      case False
      with Cons [of k] show ?thesis by (simp add: payloads_def)
    next
      case True
      show ?thesis
      proof (cases "drop 6 l = ''[DONE]''")
        case d: True
        with True have "map fst [] = take (length []) (takeWhile (\<lambda>p. p \<noteq> ''[DONE]'') (payloads (l # ls)))
            \<and> fst (process_lines (Some cb) parse k (l # ls)) = concat (map (calls_for parse) [])"
          by simp
        then show ?thesis by blast
      next
        case d: False
        obtain c k1 threw where h: "handle_data (Some cb) parse k (drop 6 l) = (c, k1, threw)"
          by (cases "handle_data (Some cb) parse k (drop 6 l)")
        from handle_data_calls [of cb parse k "drop 6 l"] h
        obtain r where r: "c = calls_for parse (drop 6 l, r)" by auto
        have pl: "takeWhile (\<lambda>p. p \<noteq> ''[DONE]'') (payloads (l # ls))
                    = drop 6 l # takeWhile (\<lambda>p. p \<noteq> ''[DONE]'') (payloads ls)"
          using True d by (simp add: payloads_def)
        show ?thesis
        proof (cases threw)
          case t: True
          have "map fst [(drop 6 l, r)]
                  = take (length [(drop 6 l, r)]) (takeWhile (\<lambda>p. p \<noteq> ''[DONE]'') (payloads (l # ls)))
              \<and> fst (process_lines (Some cb) parse k (l # ls))
                  = concat (map (calls_for parse) [(drop 6 l, r)])"
            using True d h r t by (simp add: pl Let_def)
          then show ?thesis by blast
        next
          case t: False
          from Cons [of k1] obtain rs where
            rs: "map fst rs = take (length rs) (takeWhile (\<lambda>p. p \<noteq> ''[DONE]'') (payloads ls))"
                "fst (process_lines (Some cb) parse k1 ls) = concat (map (calls_for parse) rs)"
            by blast
          have "map fst ((drop 6 l, r) # rs)
                  = take (length ((drop 6 l, r) # rs))
                      (takeWhile (\<lambda>p. p \<noteq> ''[DONE]'') (payloads (l # ls)))
              \<and> fst (process_lines (Some cb) parse k (l # ls))
                  = concat (map (calls_for parse) ((drop 6 l, r) # rs))"
            using True d h r t rs by (simp add: pl split_beta Let_def)
          then show ?thesis by blast
        qed
      qed
    qed
  qed
  with Some show ?thesis by simp
qed

lemma takeWhile_until:
  assumes "\<forall>x \<in> set xs. P x" and "\<not> P y"
  shows "takeWhile P (xs @ y # ys) = xs"
  using assms by (induction xs) simp_all

text \<open>
  C3. For a response that streams, the calls to \<open>onMessage\<close> follow the stream: they
  are the calls for an initial run of the payloads of the complete \<open>data: \<close> lines
  that precede the first \<open>[DONE]\<close> payload, in stream order, each payload giving its
  call and, when that call threw, the second call from the \<open>catch\<close> block. Nothing that
  follows the \<open>[DONE]\<close> line is ever delivered, and when the line loop reaches that
  line the promise resolves. With a callback that does not throw, every payload before
  the first \<open>[DONE]\<close> is delivered exactly once, and a \<open>[DONE]\<close> line in the stream
  resolves the promise.
\<close>

theorem stream_delivers_in_order:
  assumes "response_ok status"
  shows "(\<exists>rs. map fst rs
                 = take (length rs)
                     (takeWhile (\<lambda>p. p \<noteq> ''[DONE]'')
                        (payloads (complete_lines (stream_text dec d0 chunks))))
             \<and> fst (stream_response om k0 dec d0 parse (FetchResponse status (Some (chunks, e))))
                 = concat (map (calls_for parse) rs))
       \<and> (snd (snd (process_lines om parse k0 (complete_lines (stream_text dec d0 chunks))))
             = SawDone
            \<longrightarrow> snd (stream_response om k0 dec d0 parse (FetchResponse status (Some (chunks, e))))
                  = Resolved)
       \<and> ((\<forall>k a. \<not> snd (cb k a)) \<longrightarrow>
             fst (stream_response (Some cb) k0 dec d0 parse (FetchResponse status (Some (chunks, e))))
               = map (chunk_arg parse)
                   (takeWhile (\<lambda>p. p \<noteq> ''[DONE]'')
                      (payloads (complete_lines (stream_text dec d0 chunks))))
             \<and> (''[DONE]'' \<in> set (payloads (complete_lines (stream_text dec d0 chunks)))
                  \<longrightarrow> snd (stream_response (Some cb) k0 dec d0 parse
                             (FetchResponse status (Some (chunks, e))))
                        = Resolved)
             \<and> (complete_lines (stream_text dec d0 chunks) = before @ ''data: [DONE]'' # after
                  \<and> ''[DONE]'' \<notin> set (payloads before)
                  \<longrightarrow> stream_response (Some cb) k0 dec d0 parse
                        (FetchResponse status (Some (chunks, e)))
                        = (map (chunk_arg parse) (payloads before), Resolved)))"
proof -
  let ?L = "complete_lines (stream_text dec d0 chunks)"
  have whole: "stream_response f k0 dec d0 parse (FetchResponse status (Some (chunks, e)))
                 = (fst (process_lines f parse k0 ?L),
                    exit_outcome e (snd (snd (process_lines f parse k0 ?L))))" for f
    unfolding stream_response_whole [OF assms] by (simp add: split_beta)
  have one: "\<exists>rs. map fst rs = take (length rs) (takeWhile (\<lambda>p. p \<noteq> ''[DONE]'') (payloads ?L))
               \<and> fst (stream_response om k0 dec d0 parse (FetchResponse status (Some (chunks, e))))
                   = concat (map (calls_for parse) rs)"
    unfolding whole using process_lines_order [of ?L om parse k0] by simp
  have two: "snd (stream_response om k0 dec d0 parse (FetchResponse status (Some (chunks, e))))
               = Resolved"
    if "snd (snd (process_lines om parse k0 ?L)) = SawDone"
    unfolding whole using that by (simp add: exit_outcome_def)
  have three: "fst (stream_response (Some cb) k0 dec d0 parse (FetchResponse status (Some (chunks, e))))
               = map (chunk_arg parse) (takeWhile (\<lambda>p. p \<noteq> ''[DONE]'') (payloads ?L))"
        and four: "''[DONE]'' \<in> set (payloads ?L)
               \<Longrightarrow> snd (stream_response (Some cb) k0 dec d0 parse
                          (FetchResponse status (Some (chunks, e)))) = Resolved"
    if nt: "\<forall>k a. \<not> snd (cb k a)"
    unfolding whole using process_lines_no_throw [OF nt, of parse k0 ?L]
    by (simp_all add: exit_outcome_def)
  have five: "stream_response (Some cb) k0 dec d0 parse (FetchResponse status (Some (chunks, e)))
               = (map (chunk_arg parse) (payloads before), Resolved)"
    if nt: "\<forall>k a. \<not> snd (cb k a)"
      and l: "?L = before @ ''data: [DONE]'' # after"
      and b: "''[DONE]'' \<notin> set (payloads before)"
  proof -
    have p: "payloads ?L = payloads before @ ''[DONE]'' # payloads after"
      unfolding l by (simp add: payloads_def)
    have "takeWhile (\<lambda>p. p \<noteq> ''[DONE]'') (payloads ?L) = payloads before"
      unfolding p using b by (intro takeWhile_until) auto
    moreover have "''[DONE]'' \<in> set (payloads ?L)"
      unfolding p by simp
    ultimately show ?thesis
      using three [OF nt] four [OF nt] by (simp add: prod_eq_iff)
  qed
  show ?thesis
    using one two three four five by blast
qed

theorem stream_delivers_in_order_witness:
  "stream_response (Some counting) 0 ascii_step () Map.empty
       (FetchResponse 200
          (Some ([''data: a\<newline>da'', ''ta: b\<newline>data: [DONE]\<newline>data: c\<newline>''], ReadDone)))
     = ([JStr ''a'', JStr ''b''], Resolved)"
  using stream_delivers_in_order
    [where status = 200 and dec = ascii_step and ?d0.0 = "()" and parse = Map.empty
       and om = "Some counting" and cb = counting and ?k0.0 = 0
       and chunks = "[''data: a\<newline>da'', ''ta: b\<newline>data: [DONE]\<newline>data: c\<newline>'']"
       and e = ReadDone and before = "[''data: a'', ''data: b'']" and after = "[''data: c'']"]
  by (simp add: response_ok_def stream_text_def complete_lines_def payloads_def chunk_arg_def
        ascii_step_def counting_def prod_eq_iff)

lemma stream_retry_example:
  "stream_response (Some throwing_once) 0 ascii_step () [''1'' \<mapsto> JNum 1]
       (FetchResponse 200 (Some ([''data: 1\<newline>data: 2\<newline>data: [DONE]\<newline>''], ReadDone)))
     = ([JStr ''1'', JStr ''1'', JStr ''2''], Resolved)"
  by (simp add: response_ok_def ascii_step_def throwing_once_def handle_data_def invoke_def
        try_arg_def pop_or_empty_def Let_def)

lemma stream_throw_example:
  "stream_response (Some (\<lambda>k a. (k, True))) () ascii_step () [''1'' \<mapsto> JNum 1]
       (FetchResponse 200 (Some ([''data: 1\<newline>data: 2\<newline>data: [DONE]\<newline>''], ReadDone)))
     = ([JStr ''1'', JStr ''1''], Rejected)"
  by (simp add: response_ok_def ascii_step_def handle_data_def invoke_def
        try_arg_def pop_or_empty_def Let_def)

text \<open>
  C8. The arguments passed to \<open>onMessage\<close> depend only on the concatenation of the
  chunks read: two chunkings of the same bytes give the same calls in the same order.
\<close>

theorem stream_chunking_independent:
  assumes "concat cs1 = concat cs2"
  shows "fst (stream_response om k0 dec d0 parse (FetchResponse status (Some (cs1, e1))))
       = fst (stream_response om k0 dec d0 parse (FetchResponse status (Some (cs2, e2))))"
proof (cases "response_ok status")
  case True
  show ?thesis
    unfolding stream_response_whole [OF True] stream_text_def assms by (simp add: split_beta)
next
  case False
  then show ?thesis by simp
qed

theorem stream_chunking_independent_witness:
  "concat [''data: a\<newline>da'', ''ta: b\<newline>'', ''data'', '': c''] = concat [''data: a\<newline>data: b\<newline>data: c'']
   \<and> fst (stream_response (Some counting) 0 ascii_step () Map.empty
        (FetchResponse 200 (Some ([''data: a\<newline>da'', ''ta: b\<newline>'', ''data'', '': c''], ReadDone))))
     = fst (stream_response (Some counting) 0 ascii_step () Map.empty
        (FetchResponse 200 (Some ([''data: a\<newline>data: b\<newline>data: c''], ReadError))))"
  using stream_chunking_independent
    [where ?cs1.0 = "[''data: a\<newline>da'', ''ta: b\<newline>'', ''data'', '': c'']"
       and ?cs2.0 = "[''data: a\<newline>data: b\<newline>data: c'']"
       and om = "Some counting" and ?k0.0 = 0
       and dec = ascii_step and ?d0.0 = "()" and parse = Map.empty
       and status = 200 and ?e1.0 = ReadDone and ?e2.0 = ReadError]
  by simp

section \<open>Logout\<close>

lemma logout_resets_store:
  "auth (logout c) = initialState \<and> localStorage (logout c) ''auth-storage'' = None
   \<and> location (logout c) = location c \<and> toasts (logout c) = toasts c"
  by (simp add: logout_def set_auth_def Let_def)

text \<open>
  After \<open>logout\<close>, called by the user or by the response interceptor on a response with
  status 401 to a request made through the axios instance, the store holds no user, no
  token, no refresh token and is not authenticated, and the \<open>auth-storage\<close> entry is
  gone; the next request carries no token on either path. On the 401 path the location
  is the login page.
\<close>

lemma logout_clears_auth:
  "user (auth (logout c)) = None \<and> token (auth (logout c)) = None
   \<and> refreshToken (auth (logout c)) = None \<and> \<not> isAuthenticated (auth (logout c))
   \<and> localStorage (logout c) ''auth-storage'' = None
   \<and> authorization (logout c) = None \<and> stream_authorization (logout c) = []
   \<and> auth (fst (request (HttpErr (ErrorResponse 401 detail msg)) c)) = initialState
   \<and> localStorage (fst (request (HttpErr (ErrorResponse 401 detail msg)) c)) ''auth-storage'' = None
   \<and> location (fst (request (HttpErr (ErrorResponse 401 detail msg)) c)) = ''/login''
   \<and> authorization (fst (request (HttpErr (ErrorResponse 401 detail msg)) c)) = None
   \<and> stream_authorization (fst (request (HttpErr (ErrorResponse 401 detail msg)) c)) = []"
  by (simp add: logout_resets_store request_def authorization_def stream_authorization_def)
     (simp add: initialState_def)

text \<open>
  C10. The claim holds of every request made through the axios instance, but not of
  \<open>stream\<close>, which sets the same \<open>Authorization\<close> header by hand and has no handling
  of status 401. From a logged-in state, a response with status 401 makes \<open>stream\<close>
  reject its promise and leaves the store, the persisted entry and the location as they
  were, so the next request still carries the expired token; the same response to a
  request through the axios instance, from the same state, logs out and redirects.
\<close>

theorem stream_401_keeps_token:
  "stream (Some counting) 0 ascii_step () Map.empty (FetchResponse 401 None)
       (login ''tok'' ''ref''
          \<lparr> u_id = ''7'', username = ''ann'', email = ''ann@example.com'', fullName = ''Ann'',
            u_role = ''analyst'', department = None, isActive = True, isSuperuser = False \<rparr>
          \<lparr> auth = initialState, localStorage = Map.empty, location = ''/chat'', toasts = [] \<rparr>)
     = (\<lparr> auth = \<lparr> user = Some \<lparr> u_id = ''7'', username = ''ann'', email = ''ann@example.com'',
                        fullName = ''Ann'', u_role = ''analyst'', department = None,
                        isActive = True, isSuperuser = False \<rparr>,
                   token = Some ''tok'', refreshToken = Some ''ref'',
                   isAuthenticated = True, isLoading = False \<rparr>,
          localStorage = [''auth-storage'' \<mapsto>
              \<lparr> p_token = Some ''tok'', p_refreshToken = Some ''ref'',
                p_user = Some \<lparr> u_id = ''7'', username = ''ann'', email = ''ann@example.com'',
                        fullName = ''Ann'', u_role = ''analyst'', department = None,
                        isActive = True, isSuperuser = False \<rparr>,
                p_isAuthenticated = True \<rparr>],
          location = ''/chat'', toasts = [] \<rparr>,
        [], Rejected)
   \<and> stream_authorization (fst (stream (Some counting) 0 ascii_step () Map.empty
       (FetchResponse 401 None)
       (login ''tok'' ''ref''
          \<lparr> u_id = ''7'', username = ''ann'', email = ''ann@example.com'', fullName = ''Ann'',
            u_role = ''analyst'', department = None, isActive = True, isSuperuser = False \<rparr>
          \<lparr> auth = initialState, localStorage = Map.empty, location = ''/chat'', toasts = [] \<rparr>)))
     = ''Bearer tok''
   \<and> fst (request (HttpErr (ErrorResponse 401 None None) :: unit http_result)
       (login ''tok'' ''ref''
          \<lparr> u_id = ''7'', username = ''ann'', email = ''ann@example.com'', fullName = ''Ann'',
            u_role = ''analyst'', department = None, isActive = True, isSuperuser = False \<rparr>
          \<lparr> auth = initialState, localStorage = Map.empty, location = ''/chat'', toasts = [] \<rparr>))
     = \<lparr> auth = initialState, localStorage = Map.empty, location = ''/login'',
         toasts = [ToastLoginExpired] \<rparr>"
  by (simp add: stream_def login_def logout_def request_def set_auth_def partialize_def
        response_ok_def stream_authorization_def initialState_def Let_def)

section \<open>Cyclic task graphs\<close>

lemma path_ok_successor:
  assumes "path_ok g (p @ [z])" and "x \<in> set p"
  shows "\<exists>y \<in> set p \<union> {z}. edge g x y"
  using assms
proof (induction p)
  case Nil
  then show ?case by simp
next
  case (Cons a p)
  show ?case
  proof (cases p)
    case Nil
    with Cons.prems show ?thesis by simp
  next
    case (Cons b q)
    with Cons.prems(1) have e: "edge g a b" and r: "path_ok g (p @ [z])" by simp_all
    show ?thesis
    proof (cases "x = a")
      case True
      with e Cons show ?thesis by auto
    next
      case False
      with Cons.prems(2) have "x \<in> set p" by simp
      with Cons.IH r show ?thesis by auto
    qed
  qed
qed

lemma cycle_successor:
  assumes "is_cycle g p" and "x \<in> set p"
  shows "\<exists>y \<in> set p. edge g x y"
proof -
  from assms(1) have "p \<noteq> []" and "path_ok g (p @ [hd p])"
    by (simp_all add: is_cycle_def)
  with path_ok_successor [of g p "hd p" x] assms(2) show ?thesis by auto
qed

lemma topo_order_blocked:
  assumes "set pending \<subseteq> set g"
    and "B \<subseteq> set pending" and "B \<noteq> {}"
    and "\<forall>t \<in> B. \<exists>d \<in> set (dependencies t). d \<in> C"
    and "\<forall>t \<in> set g. task_id t \<in> C \<longrightarrow> t \<in> B"
    and "set finished \<inter> C = {}"
  shows "topo_order pending finished = None"
  using assms
proof (induction pending finished rule: topo_order.induct)
  case (1 pending finished)
  have ne: "pending \<noteq> []" using "1.prems"(2,3) by auto
  have blocked: "\<not> ready finished t" if "t \<in> B" for t
  proof -
    from that "1.prems"(4) obtain d where "d \<in> set (dependencies t)" and "d \<in> C" by blast
    with "1.prems"(6) show ?thesis by (auto simp: ready_def list_all_iff)
  qed
  show ?case
  proof (cases "filter (ready finished) pending = []")
    case True
    with ne show ?thesis by (subst topo_order.simps) simp
  next
    case False
    let ?p = "filter (\<lambda>t. \<not> ready finished t) pending"
    let ?d = "finished @ map task_id (filter (ready finished) pending)"
    have a: "set ?p \<subseteq> set g" using "1.prems"(1) by auto
    have b: "B \<subseteq> set ?p" using "1.prems"(2) blocked by auto
    have c: "set ?d \<inter> C = {}"
    proof -
      have "task_id t \<notin> C" if "t \<in> set pending" and "ready finished t" for t
        using that "1.prems"(1,5) blocked by blast
      with "1.prems"(6) show ?thesis by auto
    qed
    have "topo_order ?p ?d = None"
      using "1.IH" [OF ne False a b "1.prems"(3,4,5) c] .
    with ne False show ?thesis by (subst topo_order.simps) simp
  qed
qed

lemma cyclic_no_order:
  assumes "is_cycle g p" and "distinct (map task_id g)"
  shows "topo_order g [] = None"
proof -
  define C where "C = set p"
  define B where "B = {t \<in> set g. task_id t \<in> C}"
  have dep: "\<exists>d \<in> set (dependencies t). d \<in> C" if "t \<in> B" for t
  proof -
    from that have tg: "t \<in> set g" and "task_id t \<in> set p" by (simp_all add: B_def C_def)
    with cycle_successor [OF assms(1)] obtain y where y: "y \<in> set p" and "edge g (task_id t) y"
      by blast
    then obtain t' where t': "t' \<in> set g" "task_id t' = task_id t" "y \<in> set (dependencies t')"
      by (auto simp: edge_def list_ex_iff)
    with tg assms(2) have "t' = t" by (auto simp: distinct_map dest: inj_onD)
    with t' y show ?thesis by (auto simp: C_def)
  qed
  have "B \<noteq> {}"
  proof -
    from assms(1) have "hd p \<in> set p" by (simp add: is_cycle_def)
    with cycle_successor [OF assms(1)] obtain y where "edge g (hd p) y" by blast
    then obtain t where "t \<in> set g" "task_id t = hd p" by (auto simp: edge_def list_ex_iff)
    with \<open>hd p \<in> set p\<close> show ?thesis by (auto simp: B_def C_def)
  qed
  then show ?thesis
    using topo_order_blocked [of g g B C "[]"] dep by (auto simp: B_def)
qed

text \<open>
  C6. A task graph that contains a cycle is rejected with \<open>InvalidDecomposition\<close> before
  execution: \<open>submit\<close> returns that error and the list of tasks that ran is empty.
  \<open>submit\<close> is a total function, so the rejection is reached on every such graph.
\<close>

theorem cyclic_graph_rejected:
  assumes "is_cycle g p"
  shows "submit exec g = ([], Inl InvalidDecomposition)"
  using cyclic_no_order [OF assms] by (simp add: submit_def validate_def)

theorem cyclic_graph_rejected_witness:
  "is_cycle
     [\<lparr> task_id = 1, parent_request = 0, required_capability = ''sales-analysis'',
         input_payload = ''q'', dependencies = [2], required = True \<rparr>,
      \<lparr> task_id = 2, parent_request = 0, required_capability = ''stock-analysis'',
         input_payload = ''q'', dependencies = [1], required = False \<rparr>] [1, 2]
   \<and> submit (\<lambda>t. Some ''done'')
     [\<lparr> task_id = 1, parent_request = 0, required_capability = ''sales-analysis'',
         input_payload = ''q'', dependencies = [2], required = True \<rparr>,
      \<lparr> task_id = 2, parent_request = 0, required_capability = ''stock-analysis'',
         input_payload = ''q'', dependencies = [1], required = False \<rparr>]
     = ([], Inl InvalidDecomposition)"
  using cyclic_graph_rejected
    [where g = "[\<lparr> task_id = 1, parent_request = 0, required_capability = ''sales-analysis'',
         input_payload = ''q'', dependencies = [2], required = True \<rparr>,
      \<lparr> task_id = 2, parent_request = 0, required_capability = ''stock-analysis'',
         input_payload = ''q'', dependencies = [1], required = False \<rparr>]"
       and p = "[1, 2]" and exec = "\<lambda>t. Some ''done''"]
  by (simp add: is_cycle_def edge_def)

lemma submit_acyclic_example:
  "submit (\<lambda>t. Some (input_payload t))
     [\<lparr> task_id = 1, parent_request = 0, required_capability = ''sales-analysis'',
         input_payload = ''a'', dependencies = [2], required = True \<rparr>,
      \<lparr> task_id = 2, parent_request = 0, required_capability = ''stock-analysis'',
         input_payload = ''b'', dependencies = [], required = False \<rparr>]
     = ([2, 1], Inr [(2, Some ''b''), (1, Some ''a'')])"
  by (simp add: submit_def validate_def ready_def has_failed_def)

section \<open>Tool timeouts\<close>

text \<open>
  C7. A call to a registered, healthy provider whose reply takes longer than the
  caller's timeout returns \<open>ToolTimeout\<close> after exactly one dispatch: the bridge does
  not call the provider again. No call makes more than one dispatch.
\<close>

theorem timeout_not_retried:
  assumes "find (\<lambda>p. tp_name p = provider) bridge = Some p"
    and "tp_health p = Healthy"
    and "duration (net (tp_endpoint p) tool args) > timeout"
  shows "call_tool net bridge provider tool args timeout
           = ([(tp_endpoint p, tool, args)], Inl ToolTimeout)
       \<and> length (fst (call_tool net' bridge' provider' tool' args' timeout')) \<le> 1"
proof -
  have "length (fst (call_tool net' bridge' provider' tool' args' timeout')) \<le> 1"
    by (simp add: call_tool_def Let_def split: option.split)
  with assms show ?thesis
    by (simp add: call_tool_def)
qed

theorem timeout_not_retried_witness:
  "call_tool (\<lambda>ep tool args. \<lparr> duration = 5000, answer = Inr ''late'' \<rparr>)
       [\<lparr> tp_name = ''inventory-db'', tp_endpoint = ''http://tools/inventory'',
           tp_capabilities = [''stock-analysis''], tp_health = Healthy, tp_failed_probes = 0 \<rparr>]
       ''inventory-db'' ''turnover'' ''{}'' 3000
     = ([(''http://tools/inventory'', ''turnover'', ''{}'')], Inl ToolTimeout)"
  using timeout_not_retried
    [where provider = "''inventory-db''"
       and bridge = "[\<lparr> tp_name = ''inventory-db'', tp_endpoint = ''http://tools/inventory'',
           tp_capabilities = [''stock-analysis''], tp_health = Healthy, tp_failed_probes = 0 \<rparr>]"
       and p = "\<lparr> tp_name = ''inventory-db'', tp_endpoint = ''http://tools/inventory'',
           tp_capabilities = [''stock-analysis''], tp_health = Healthy, tp_failed_probes = 0 \<rparr>"
       and timeout = 3000
       and net = "\<lambda>ep tool args. \<lparr> duration = 5000, answer = Inr ''late'' \<rparr>"
       and tool = "''turnover''" and args = "''{}''"]
  by simp

end
